theory Spec2Isabelle
  imports Main
begin

section \<open>Grid primitives\<close>

text \<open>
  The puzzle engine of \<^verbatim>\<open>App.tsx\<close> works on \<^verbatim>\<open>Grid = number[][]\<close>
  (\<^verbatim>\<open>types.ts\<close>): nine rows of nine numbers, 0 for an empty cell. A grid is a
  list of rows here. Every index the source reads or writes lies in \<open>0..8\<close>, so on a
  9 by 9 grid no access is out of range; the theorems below are stated for such grids
  (\<open>is_grid\<close>). For a list of another shape the comparison \<^verbatim>\<open>grid[i][j] === v\<close>
  is modelled by \<open>cellIs\<close>: a missing column reads \<^verbatim>\<open>undefined\<close>, which equals
  no number (a missing row throws in the source; no 9 by 9 grid reaches that).
\<close>

type_synonym Grid = "int list list"

abbreviation (input) GRID_SIZE :: nat where "GRID_SIZE \<equiv> 9"
abbreviation (input) BOX_SIZE :: nat where "BOX_SIZE \<equiv> 3"

definition is_grid :: "Grid \<Rightarrow> bool" where
  "is_grid grid \<longleftrightarrow> length grid = GRID_SIZE \<and> list_all (\<lambda>row. length row = GRID_SIZE) grid"

definition getEmptyGrid :: Grid where
  "getEmptyGrid = replicate GRID_SIZE (replicate GRID_SIZE 0)"

definition cellIs :: "Grid \<Rightarrow> nat \<Rightarrow> nat \<Rightarrow> int \<Rightarrow> bool" where
  "cellIs grid i j v \<longleftrightarrow> i < length grid \<and> j < length (grid ! i) \<and> grid ! i ! j = v"

text \<open>The assignment \<^verbatim>\<open>grid[i][j] = v\<close>, returning the grid as mutated.\<close>

definition setCell :: "Grid \<Rightarrow> nat \<Rightarrow> nat \<Rightarrow> int \<Rightarrow> Grid" where
  "setCell grid i j v = grid[i := (grid ! i)[j := v]]"

definition isSafe :: "Grid \<Rightarrow> nat \<Rightarrow> nat \<Rightarrow> int \<Rightarrow> bool" where
  "isSafe grid row col num =
     (list_all (\<lambda>x. \<not> (cellIs grid row x num \<or> cellIs grid x col num)) [0..<GRID_SIZE] \<and>
      (let startRow = row - row mod BOX_SIZE; startCol = col - col mod BOX_SIZE
       in list_all (\<lambda>i. list_all (\<lambda>j. \<not> cellIs grid (i + startRow) (j + startCol) num)
             [0..<BOX_SIZE]) [0..<BOX_SIZE]))"

section \<open>Solver\<close>

text \<open>
  Both \<^verbatim>\<open>solveGrid\<close> and \<^verbatim>\<open>countSolutions\<close> scan the cells row by row and
  stop at the first one that holds 0. \<open>findEmpty\<close> is that scan.
\<close>

definition scanOrder :: "(nat \<times> nat) list" where
  "scanOrder = concat (map (\<lambda>i. map (\<lambda>j. (i, j)) [0..<GRID_SIZE]) [0..<GRID_SIZE])"

definition findEmpty :: "Grid \<Rightarrow> (nat \<times> nat) option" where
  "findEmpty grid = find (\<lambda>(i, j). cellIs grid i j 0) scanOrder"

text \<open>
  \<^verbatim>\<open>solveGrid\<close> mutates the grid in place and returns a boolean; the model returns the
  boolean together with the grid as the call leaves it. \<open>solveNums grid row col num\<close> is
  the state of the loop \<^verbatim>\<open>for (let num = 1; num <= 9; num++)\<close> at the cell the scan
  found, about to try \<open>num\<close>. After a failed recursive call the source writes 0 into the
  grid the call left behind, which is what the model does.
\<close>

function solveGrid :: "Grid \<Rightarrow> bool \<times> Grid"
  and solveNums :: "Grid \<Rightarrow> nat \<Rightarrow> nat \<Rightarrow> int \<Rightarrow> bool \<times> Grid" where
  "solveGrid grid =
     (case findEmpty grid of
        None \<Rightarrow> (True, grid)
      | Some (row, col) \<Rightarrow> solveNums grid row col 1)"
| "solveNums grid row col num =
     (if num \<le> 9 then
        (if isSafe grid row col num then
           (let (solved, grid') = solveGrid (setCell grid row col num)
            in if solved then (True, grid')
               else solveNums (setCell grid' row col 0) row col (num + 1))
         else solveNums grid row col (num + 1))
      else (False, grid))"
  by pat_completeness auto

subsection \<open>Writes and reads of single cells\<close>

lemma setCell_setCell [simp]: "setCell (setCell g r c a) r c b = setCell g r c b"
  by (cases "r < length g") (simp_all add: setCell_def list_update_beyond)

lemma setCell_same: "cellIs g r c v \<Longrightarrow> setCell g r c v = g"
  by (auto simp: setCell_def cellIs_def)

lemma length_setCell [simp]: "length (setCell g r c v) = length g"
  by (simp add: setCell_def)

lemma length_row_setCell [simp]: "length (setCell g r c v ! i) = length (g ! i)"
  by (cases "r < length g"; cases "i = r") (simp_all add: setCell_def list_update_beyond)

lemma cellIs_setCell:
  "cellIs (setCell g r c v) i j w \<longleftrightarrow>
     (if i = r \<and> j = c then r < length g \<and> c < length (g ! r) \<and> v = w else cellIs g i j w)"
  by (cases "r < length g"; cases "i = r"; cases "j = c") (auto simp: setCell_def cellIs_def)

lemma distinct_scanOrder: "distinct scanOrder"
  unfolding scanOrder_def by (simp add: distinct_concat_iff distinct_map inj_on_def upt_conv_Cons)

lemma set_scanOrder: "(i, j) \<in> set scanOrder \<longleftrightarrow> i < 9 \<and> j < 9"
  unfolding scanOrder_def by (auto simp: image_iff)

lemma findEmpty_Some:
  "findEmpty g = Some (r, c) \<Longrightarrow> (r, c) \<in> set scanOrder \<and> cellIs g r c 0"
  unfolding findEmpty_def by (auto simp: find_Some_iff in_set_conv_nth)

lemma findEmpty_None:
  "findEmpty g = None \<longleftrightarrow> (\<forall>i<9. \<forall>j<9. \<not> cellIs g i j 0)"
  unfolding findEmpty_def by (auto simp: find_None_iff set_scanOrder)

text \<open>
  Termination: every recursive call of the solver works on a grid with one empty cell
  fewer, counted over the scanned cells.
\<close>

definition emptyCount :: "Grid \<Rightarrow> nat" where
  "emptyCount g = length (filter (\<lambda>(i, j). cellIs g i j 0) scanOrder)"

lemma filter_flip:
  "distinct xs \<Longrightarrow> x \<in> set xs \<Longrightarrow> P x \<Longrightarrow> \<not> Q x \<Longrightarrow> (\<And>y. y \<noteq> x \<Longrightarrow> P y = Q y) \<Longrightarrow>
   length (filter P xs) = Suc (length (filter Q xs))"
proof (induction xs)
  case Nil
  then show ?case by simp
next
  case (Cons a xs)
  show ?case
  proof (cases "a = x")
    case True
    then have "x \<notin> set xs" using Cons.prems(1) by simp
    then have "\<forall>y\<in>set xs. P y = Q y"
      using Cons.prems(5) by metis
    then have "filter P xs = filter Q xs"
      by (simp cong: filter_cong)
    then show ?thesis using True Cons.prems by simp
  next
    case False
    then have "length (filter P xs) = Suc (length (filter Q xs))"
      using Cons by simp
    then show ?thesis using False Cons.prems(5)[of a] by simp
  qed
qed

lemma filter_mono_le:
  "(\<And>y. y \<in> set xs \<Longrightarrow> P y \<Longrightarrow> Q y) \<Longrightarrow> length (filter P xs) \<le> length (filter Q xs)"
  by (induction xs) auto

definition inScan :: "Grid \<Rightarrow> nat \<Rightarrow> nat \<Rightarrow> bool" where
  "inScan g r c \<longleftrightarrow> r < 9 \<and> c < 9 \<and> r < length g \<and> c < length (g ! r)"

lemma emptyCount_fill:
  assumes "inScan g r c" "v \<noteq> 0"
  shows "emptyCount (setCell g r c 0) = Suc (emptyCount (setCell g r c v))"
  unfolding emptyCount_def
  apply (rule filter_flip[where x = "(r, c)"])
  using assms by (auto simp: distinct_scanOrder set_scanOrder inScan_def cellIs_setCell)

lemma emptyCount_le:
  "emptyCount (setCell g r c v) \<le> emptyCount (setCell g r c 0)"
  unfolding emptyCount_def
  by (rule filter_mono_le) (auto simp: cellIs_setCell split: if_splits)

lemma inScan_setCell [simp]: "inScan (setCell g r c v) i j = inScan g i j"
  by (simp add: inScan_def)

lemma findEmpty_inScan: "findEmpty g = Some (r, c) \<Longrightarrow> inScan g r c \<and> setCell g r c 0 = g"
  using findEmpty_Some[of g r c] setCell_same[of g r c 0]
  by (auto simp: set_scanOrder inScan_def cellIs_def)

lemma solve_unwound_dom:
  "solveGrid_solveNums_dom (Inl g) \<Longrightarrow> \<not> fst (solveGrid g) \<Longrightarrow> snd (solveGrid g) = g"
  "solveGrid_solveNums_dom (Inr (g, r, c, n)) \<Longrightarrow> \<not> fst (solveNums g r c n) \<Longrightarrow>
     snd (solveNums g r c n) = g \<or> snd (solveNums g r c n) = setCell g r c 0"
proof (induct rule: solveGrid_solveNums.pinduct)
  case (1 grid)
  show ?case
  proof (cases "findEmpty grid")
    case None
    then show ?thesis using 1(1) by (simp add: solveGrid.psimps)
  next
    case (Some p)
    obtain r c where p: "p = (r, c)" by (cases p)
    have eq: "solveGrid grid = solveNums grid r c 1"
      using 1(1) Some p by (simp add: solveGrid.psimps)
    have "setCell grid r c 0 = grid"
      using Some p findEmpty_inScan by simp
    then show ?thesis using 1(2)[OF Some p[symmetric]] 1(3) eq by auto
  qed
next
  case (2 grid row col num)
  show ?case
  proof (cases "num \<le> 9")
    case False
    then show ?thesis using 2(1) by (simp add: solveNums.psimps)
  next
    case le: True
    show ?thesis
    proof (cases "isSafe grid row col num")
      case False
      then show ?thesis using 2(1,4,5) le by (simp add: solveNums.psimps)
    next
      case True
      obtain s g' where sg: "solveGrid (setCell grid row col num) = (s, g')"
        by (cases "solveGrid (setCell grid row col num)")
      show ?thesis
      proof (cases s)
        case True
        then show ?thesis using 2(1,5) le \<open>isSafe grid row col num\<close> sg
          by (simp add: solveNums.psimps)
      next
        case False
        then have g': "g' = setCell grid row col num"
          using 2(2)[OF le True] sg by simp
        have eq: "solveNums grid row col num = solveNums (setCell grid row col 0) row col (num + 1)"
          using 2(1) le True sg False g' by (simp add: solveNums.psimps)
        have "snd (solveNums (setCell g' row col 0) row col (num + 1)) = setCell g' row col 0
            \<or> snd (solveNums (setCell g' row col 0) row col (num + 1)) = setCell (setCell g' row col 0) row col 0"
          using 2(3)[OF le True sg[symmetric] refl] False 2(5) eq g' by simp
        then show ?thesis using eq g' by simp
      qed
    qed
  qed
qed

termination solveGrid
proof (relation "measures [
    (\<lambda>x. case x of Inl g \<Rightarrow> 2 * emptyCount g + 1
       | Inr (g, r, c, n) \<Rightarrow> 2 * emptyCount (setCell g r c 0) + (if 1 \<le> n \<and> inScan g r c then 0 else 2)),
    (\<lambda>x. case x of Inl g \<Rightarrow> 0 | Inr (g, r, c, n) \<Rightarrow> nat (10 - n))]", goal_cases)
  case 1
  then show ?case by simp
next
  case (2 grid x2 x y)
  then show ?case by (auto dest: findEmpty_inScan)
next
  case (3 grid row col num)
  then show ?case
    using emptyCount_le[of grid row col num] emptyCount_fill[of grid row col num]
    by auto
next
  case (4 grid row col num x xa y)
  then have "y = setCell grid row col num"
    using solve_unwound_dom(1)[of "setCell grid row col num"] by (metis fst_conv snd_conv)
  then show ?case using 4 by auto
next
  case (5 grid row col num)
  then show ?case by auto
qed



declare solveGrid.simps [simp del] solveNums.simps [simp del]

text \<open>
  \<^verbatim>\<open>countSolutions(grid, count)\<close> shares one counter object among all recursive calls;
  the model threads the counter and the grid through and returns both. The value a
  recursive call returns is dropped by the source, the counter it leaves is kept.
\<close>

function countSolutions :: "Grid \<Rightarrow> nat \<Rightarrow> nat \<times> Grid"
  and countNums :: "Grid \<Rightarrow> nat \<Rightarrow> nat \<Rightarrow> nat \<Rightarrow> int \<Rightarrow> nat \<times> Grid" where
  "countSolutions grid count =
     (if count > 1 then (count, grid)
      else case findEmpty grid of
        None \<Rightarrow> (count + 1, grid)
      | Some (row, col) \<Rightarrow> countNums grid count row col 1)"
| "countNums grid count row col num =
     (if num \<le> 9 then
        (if isSafe grid row col num then
           (let (count', grid') = countSolutions (setCell grid row col num) count
            in countNums (setCell grid' row col 0) count' row col (num + 1))
         else countNums grid count row col (num + 1))
      else (count, grid))"
  by pat_completeness auto

lemma count_unwound_dom:
  "countSolutions_countNums_dom (Inl (g, k)) \<Longrightarrow> snd (countSolutions g k) = g"
  "countSolutions_countNums_dom (Inr (g, k, r, c, n)) \<Longrightarrow>
     snd (countNums g k r c n) = g \<or> snd (countNums g k r c n) = setCell g r c 0"
proof (induct rule: countSolutions_countNums.pinduct)
  case (1 grid count)
  show ?case
  proof (cases "count > 1")
    case True
    then show ?thesis using 1(1) by (simp add: countSolutions.psimps)
  next
    case small: False
    show ?thesis
    proof (cases "findEmpty grid")
      case None
      then show ?thesis using 1(1) small by (simp add: countSolutions.psimps)
    next
      case (Some p)
      obtain r c where p: "p = (r, c)" by (cases p)
      have eq: "countSolutions grid count = countNums grid count r c 1"
        using 1(1) Some p small by (simp add: countSolutions.psimps)
      have "setCell grid r c 0 = grid"
        using Some p findEmpty_inScan by simp
      then show ?thesis using 1(2)[OF small Some p[symmetric]] eq by auto
    qed
  qed
next
  case (2 grid count row col num)
  show ?case
  proof (cases "num \<le> 9")
    case False
    then show ?thesis using 2(1) by (simp add: countNums.psimps)
  next
    case le: True
    show ?thesis
    proof (cases "isSafe grid row col num")
      case False
      then show ?thesis using 2(1,4) le by (simp add: countNums.psimps)
    next
      case True
      obtain k' g' where sg: "countSolutions (setCell grid row col num) count = (k', g')"
        by (cases "countSolutions (setCell grid row col num) count")
      have g': "g' = setCell grid row col num"
        using 2(2)[OF le True] sg by simp
      have eq: "countNums grid count row col num = countNums (setCell grid row col 0) k' row col (num + 1)"
        using 2(1) le True sg g' by (simp add: countNums.psimps)
      have "snd (countNums (setCell g' row col 0) k' row col (num + 1)) = setCell g' row col 0
          \<or> snd (countNums (setCell g' row col 0) k' row col (num + 1))
              = setCell (setCell g' row col 0) row col 0"
        using 2(3)[OF le True sg[symmetric] refl] by simp
      then show ?thesis using eq g' by simp
    qed
  qed
qed

termination countSolutions
proof (relation "measures [
    (\<lambda>x. case x of Inl (g, k) \<Rightarrow> 2 * emptyCount g + 1
       | Inr (g, k, r, c, n) \<Rightarrow> 2 * emptyCount (setCell g r c 0) + (if 1 \<le> n \<and> inScan g r c then 0 else 2)),
    (\<lambda>x. case x of Inl (g, k) \<Rightarrow> 0 | Inr (g, k, r, c, n) \<Rightarrow> nat (10 - n))]", goal_cases)
  case 1
  then show ?case by simp
next
  case (2 grid count x2 x y)
  then show ?case by (auto dest: findEmpty_inScan)
next
  case (3 grid count row col num)
  then show ?case
    using emptyCount_le[of grid row col num] emptyCount_fill[of grid row col num]
    by auto
next
  case (4 grid count row col num x xa y)
  then have "y = setCell grid row col num"
    using count_unwound_dom(1)[of "setCell grid row col num" count] by (metis snd_conv)
  then show ?case using 4 by auto
next
  case (5 grid count row col num)
  then show ?case by auto
qed


declare countSolutions.simps [simp del] countNums.simps [simp del]

section \<open>Concrete grids\<close>

text \<open>
  A complete grid, the same grid with three cells emptied, with four cells emptied so
  that two completions exist, a grid whose first empty cell admits no value, and a full
  grid with the value 2 twice in its first row.
\<close>

definition solvedGrid :: Grid where
  "solvedGrid =
    [[1, 2, 3, 5, 4, 7, 6, 9, 8], [4, 5, 6, 2, 9, 8, 3, 1, 7], [7, 8, 9, 3, 6, 1, 2, 4, 5],
     [5, 6, 8, 1, 2, 3, 9, 7, 4], [9, 1, 7, 4, 5, 6, 8, 3, 2], [2, 3, 4, 7, 8, 9, 5, 6, 1],
     [6, 9, 5, 8, 7, 4, 1, 2, 3], [8, 7, 1, 9, 3, 2, 4, 5, 6], [3, 4, 2, 6, 1, 5, 7, 8, 9]]"

definition holedGrid :: Grid where
  "holedGrid =
    [[0, 2, 3, 5, 4, 7, 6, 9, 8], [4, 5, 6, 2, 9, 8, 3, 1, 7], [7, 8, 9, 3, 6, 1, 2, 4, 5],
     [5, 6, 8, 1, 2, 3, 9, 7, 4], [9, 1, 7, 4, 0, 6, 8, 3, 2], [2, 3, 4, 7, 8, 9, 5, 6, 1],
     [6, 9, 5, 8, 7, 4, 1, 2, 3], [8, 7, 1, 9, 3, 2, 4, 5, 6], [3, 4, 2, 6, 1, 5, 7, 8, 0]]"

definition twoWayGrid :: Grid where
  "twoWayGrid =
    [[1, 0, 3, 0, 4, 7, 6, 9, 8], [4, 0, 6, 0, 9, 8, 3, 1, 7], [7, 8, 9, 3, 6, 1, 2, 4, 5],
     [5, 6, 8, 1, 2, 3, 9, 7, 4], [9, 1, 7, 4, 5, 6, 8, 3, 2], [2, 3, 4, 7, 8, 9, 5, 6, 1],
     [6, 9, 5, 8, 7, 4, 1, 2, 3], [8, 7, 1, 9, 3, 2, 4, 5, 6], [3, 4, 2, 6, 1, 5, 7, 8, 9]]"

definition stuckGrid :: Grid where
  "stuckGrid =
    [[0, 2, 3, 4, 5, 6, 7, 8, 9], [0, 0, 0, 0, 0, 0, 0, 0, 0], [0, 0, 0, 0, 0, 0, 0, 0, 0],
     [0, 0, 0, 0, 0, 0, 0, 0, 0], [0, 0, 0, 0, 0, 0, 0, 0, 0], [1, 0, 0, 0, 0, 0, 0, 0, 0],
     [0, 0, 0, 0, 0, 0, 0, 0, 0], [0, 0, 0, 0, 0, 0, 0, 0, 0], [0, 0, 0, 0, 0, 0, 0, 0, 0]]"

definition dupGrid :: Grid where
  "dupGrid =
    [[2, 2, 3, 5, 4, 7, 6, 9, 8], [4, 5, 6, 2, 9, 8, 3, 1, 7], [7, 8, 9, 3, 6, 1, 2, 4, 5],
     [5, 6, 8, 1, 2, 3, 9, 7, 4], [9, 1, 7, 4, 5, 6, 8, 3, 2], [2, 3, 4, 7, 8, 9, 5, 6, 1],
     [6, 9, 5, 8, 7, 4, 1, 2, 3], [8, 7, 1, 9, 3, 2, 4, 5, 6], [3, 4, 2, 6, 1, 5, 7, 8, 9]]"

lemma is_grid_solvedGrid: "is_grid solvedGrid" by code_simp
lemma is_grid_holedGrid: "is_grid holedGrid" by code_simp
lemma is_grid_twoWayGrid: "is_grid twoWayGrid" by code_simp
lemma is_grid_stuckGrid: "is_grid stuckGrid" by code_simp
lemma is_grid_dupGrid: "is_grid dupGrid" by code_simp

section \<open>Properties of the grid primitives and of the solver\<close>

definition noEmpty :: "Grid \<Rightarrow> bool" where
  "noEmpty grid \<longleftrightarrow> list_all (list_all (\<lambda>v. v \<noteq> 0)) grid"

definition rowEntries :: "Grid \<Rightarrow> nat \<Rightarrow> int list" where
  "rowEntries grid row = grid ! row"

definition colEntries :: "Grid \<Rightarrow> nat \<Rightarrow> int list" where
  "colEntries grid col = map (\<lambda>r. r ! col) grid"

definition boxEntries :: "Grid \<Rightarrow> nat \<Rightarrow> nat \<Rightarrow> int list" where
  "boxEntries grid row col =
     concat (map (\<lambda>i. map (\<lambda>j. grid ! i ! j) [3 * (col div 3)..<3 * (col div 3) + 3])
                 [3 * (row div 3)..<3 * (row div 3) + 3])"

lemma is_grid_length: "is_grid g \<Longrightarrow> length g = 9"
  by (simp add: is_grid_def)

lemma is_grid_row_length: "is_grid g \<Longrightarrow> i < 9 \<Longrightarrow> length (g ! i) = 9"
  by (simp add: is_grid_def list_all_length)

lemma is_grid_cellIs: "is_grid g \<Longrightarrow> i < 9 \<Longrightarrow> j < 9 \<Longrightarrow> cellIs g i j v \<longleftrightarrow> g ! i ! j = v"
  by (simp add: cellIs_def is_grid_length is_grid_row_length)

lemma map_length_setCell [simp]: "map length (setCell g r c v) = map length g"
  by (simp add: list_eq_iff_nth_eq)

lemma is_grid_shape: "is_grid g \<longleftrightarrow> map length g = replicate 9 9"
  by (auto simp: is_grid_def list_all_length list_eq_iff_nth_eq)

lemma is_grid_setCell [simp]: "is_grid (setCell g r c v) = is_grid g"
  by (simp add: is_grid_shape)

lemma noEmpty_iff: "is_grid g \<Longrightarrow> noEmpty g \<longleftrightarrow> (\<forall>i<9. \<forall>j<9. g ! i ! j \<noteq> 0)"
  by (auto simp: noEmpty_def is_grid_def list_all_length)

lemma findEmpty_None_noEmpty: "is_grid g \<Longrightarrow> findEmpty g = None \<longleftrightarrow> noEmpty g"
  by (simp add: findEmpty_None noEmpty_iff is_grid_cellIs)

subsection \<open>The placement check\<close>

lemma box_start: "row - row mod 3 = 3 * (row div 3)" for row :: nat
  by (simp add: minus_mod_eq_mult_div)

lemma box_bound: "row < 9 \<Longrightarrow> i < 3 \<Longrightarrow> i + 3 * (row div 3) < (9::nat)"
  by presburger

lemma all_shift: "(\<forall>i<3. P (i + b)) \<longleftrightarrow> (\<forall>i\<in>{b..<b + 3}. P i)" for b :: nat
proof
  assume l: "\<forall>i<3. P (i + b)"
  show "\<forall>i\<in>{b..<b + 3}. P i"
  proof
    fix i assume "i \<in> {b..<b + 3}"
    then have "i - b < 3" "i = (i - b) + b" by auto
    then show "P i" using l by metis
  qed
next
  assume "\<forall>i\<in>{b..<b + 3}. P i"
  then show "\<forall>i<3. P (i + b)" by simp
qed

lemma isSafe_unfold:
  assumes "is_grid g" "row < 9" "col < 9"
  shows "isSafe g row col v \<longleftrightarrow>
    (\<forall>x<9. g ! row ! x \<noteq> v) \<and> (\<forall>x<9. g ! x ! col \<noteq> v) \<and>
    (\<forall>i\<in>{3 * (row div 3)..<3 * (row div 3) + 3}.
       \<forall>j\<in>{3 * (col div 3)..<3 * (col div 3) + 3}. g ! i ! j \<noteq> v)"
proof -
  have "isSafe g row col v \<longleftrightarrow>
    (\<forall>x<9. \<not> (g ! row ! x = v \<or> g ! x ! col = v)) \<and>
    (\<forall>i<3. \<forall>j<3. g ! (i + 3 * (row div 3)) ! (j + 3 * (col div 3)) \<noteq> v)"
    using assms
    by (simp add: isSafe_def list_all_iff Ball_def box_start is_grid_cellIs box_bound)
  also have "(\<forall>i<3. \<forall>j<3. g ! (i + 3 * (row div 3)) ! (j + 3 * (col div 3)) \<noteq> v) \<longleftrightarrow>
    (\<forall>i\<in>{3 * (row div 3)..<3 * (row div 3) + 3}.
       \<forall>j\<in>{3 * (col div 3)..<3 * (col div 3) + 3}. g ! i ! j \<noteq> v)"
    unfolding all_shift[of "\<lambda>j. g ! i ! j \<noteq> v" for i]
    by (rule all_shift[of "\<lambda>i. \<forall>j\<in>{3 * (col div 3)..<3 * (col div 3) + 3}. g ! i ! j \<noteq> v"])
  finally show ?thesis by blast
qed

text \<open>
  C6. On a 9 by 9 grid, for row and col in 0..8, \<open>isSafe\<close> answers true exactly when
  the value occurs neither among the entries of the row, nor among those of the column,
  nor among those of the 3 by 3 box that holds the cell. The function has no write to
  the grid, so the model returns the boolean only. The value need not lie in 1..9.
\<close>

theorem isSafe_iff_absent:
  assumes "is_grid grid" and "row < 9" and "col < 9"
  shows "isSafe grid row col v \<longleftrightarrow>
           v \<notin> set (rowEntries grid row) \<and> v \<notin> set (colEntries grid col) \<and>
           v \<notin> set (boxEntries grid row col)"
proof -
  have r: "v \<notin> set (rowEntries grid row) \<longleftrightarrow> (\<forall>x<9. grid ! row ! x \<noteq> v)"
    using assms by (auto simp: rowEntries_def in_set_conv_nth is_grid_row_length)
  have "colEntries grid col = map (\<lambda>x. grid ! x ! col) [0..<9]"
    using assms by (simp add: colEntries_def list_eq_iff_nth_eq is_grid_length)
  then have c: "v \<notin> set (colEntries grid col) \<longleftrightarrow> (\<forall>x<9. grid ! x ! col \<noteq> v)"
    by auto
  have b: "v \<notin> set (boxEntries grid row col) \<longleftrightarrow>
    (\<forall>i\<in>{3 * (row div 3)..<3 * (row div 3) + 3}.
       \<forall>j\<in>{3 * (col div 3)..<3 * (col div 3) + 3}. grid ! i ! j \<noteq> v)"
    by (auto simp: boxEntries_def)
  show ?thesis
    unfolding r c b using isSafe_unfold[OF assms] by blast
qed

theorem isSafe_iff_absent_witness:
  "is_grid holedGrid \<and> isSafe holedGrid 4 4 5 \<and>
   5 \<notin> set (rowEntries holedGrid 4) \<and> 5 \<notin> set (colEntries holedGrid 4) \<and>
   5 \<notin> set (boxEntries holedGrid 4 4) \<and>
   \<not> isSafe holedGrid 4 4 6"
proof -
  have safe: "isSafe holedGrid 4 4 5" by code_simp
  have inrow: "6 \<in> set (rowEntries holedGrid 4)" by code_simp
  show ?thesis
    using isSafe_iff_absent[OF is_grid_holedGrid, of 4 4 5]
      isSafe_iff_absent[OF is_grid_holedGrid, of 4 4 6] safe inrow is_grid_holedGrid
    by simp
qed

subsection \<open>Unfolding the solver\<close>

lemma solveGrid_full: "findEmpty g = None \<Longrightarrow> solveGrid g = (True, g)"
  by (simp add: solveGrid.simps)

lemma solveGrid_cell: "findEmpty g = Some (r, c) \<Longrightarrow> solveGrid g = solveNums g r c 1"
  by (simp add: solveGrid.simps)

lemma solveNums_stop: "\<not> n \<le> 9 \<Longrightarrow> solveNums g r c n = (False, g)"
  by (simp add: solveNums.simps)

lemma solveNums_skip:
  "n \<le> 9 \<Longrightarrow> \<not> isSafe g r c n \<Longrightarrow> solveNums g r c n = solveNums g r c (n + 1)"
  by (simp add: solveNums.simps)

lemma solveNums_try:
  "n \<le> 9 \<Longrightarrow> isSafe g r c n \<Longrightarrow>
   solveNums g r c n =
     (if fst (solveGrid (setCell g r c n)) then (True, snd (solveGrid (setCell g r c n)))
      else solveNums (setCell (snd (solveGrid (setCell g r c n))) r c 0) r c (n + 1))"
  by (subst solveNums.simps) (simp add: case_prod_beta)

lemma solve_unwound:
  "\<not> fst (solveGrid g) \<Longrightarrow> snd (solveGrid g) = g"
  "\<not> fst (solveNums g r c n) \<Longrightarrow>
     snd (solveNums g r c n) = g \<or> snd (solveNums g r c n) = setCell g r c 0"
proof (induct g and g r c n rule: solveGrid_solveNums.induct)
  case (1 grid)
  show ?case
  proof (cases "findEmpty grid")
    case None
    then show ?thesis using 1(2) by (simp add: solveGrid_full)
  next
    case (Some p)
    obtain r c where p: "p = (r, c)" by (cases p)
    have "setCell grid r c 0 = grid"
      using Some p findEmpty_inScan by simp
    then show ?thesis
      using 1(1)[OF Some p[symmetric]] 1(2) Some p by (auto simp: solveGrid_cell)
  qed
next
  case (2 grid row col num)
  let ?next = "solveGrid (setCell grid row col num)"
  consider (stop) "\<not> num \<le> 9" | (skip) "num \<le> 9" "\<not> isSafe grid row col num"
    | (hit) "num \<le> 9" "isSafe grid row col num" "fst ?next"
    | (miss) "num \<le> 9" "isSafe grid row col num" "\<not> fst ?next"
    by blast
  then show ?case
  proof cases
    case stop
    then show ?thesis by (simp add: solveNums_stop)
  next
    case skip
    then show ?thesis using 2(3,4) by (simp add: solveNums_skip)
  next
    case hit
    then show ?thesis using 2(4) by (simp add: solveNums_try)
  next
    case miss
    have undone: "snd ?next = setCell grid row col num"
      using 2(1) miss by simp
    have eq: "solveNums grid row col num = solveNums (setCell grid row col 0) row col (num + 1)"
      using miss undone by (simp add: solveNums_try)
    have "(fst ?next, snd ?next) = ?next" by simp
    from 2(2)[OF miss(1,2) refl this miss(3)] 2(4)
    show ?thesis unfolding undone eq by auto
  qed
qed

lemma solveNums_step:
  "n \<le> 9 \<Longrightarrow> isSafe g r c n \<Longrightarrow>
   solveNums g r c n =
     (if fst (solveGrid (setCell g r c n)) then solveGrid (setCell g r c n)
      else solveNums (setCell g r c 0) r c (n + 1))"
  using solve_unwound(1)[of "setCell g r c n"]
  by (simp add: solveNums_try prod_eq_iff)

text \<open>
  An induction rule along the search: at a cell that the scan found empty, the hypothesis
  is available for the grid with a value placed and for the next candidate.
\<close>

lemma solver_induct [case_names grid nums]:
  assumes grid: "\<And>g. (\<And>r c. findEmpty g = Some (r, c) \<Longrightarrow> Q g r c 1) \<Longrightarrow> P g"
    and nums: "\<And>g r c n. cellIs g r c 0 \<Longrightarrow>
        (n \<le> 9 \<Longrightarrow> isSafe g r c n \<Longrightarrow> P (setCell g r c n)) \<Longrightarrow>
        (n \<le> 9 \<Longrightarrow> (isSafe g r c n \<Longrightarrow> \<not> fst (solveGrid (setCell g r c n))) \<Longrightarrow>
           Q g r c (n + 1)) \<Longrightarrow> Q g r c n"
  shows "P g" and "cellIs g r c 0 \<Longrightarrow> Q g r c n"
proof (induct g and g r c n rule: solveGrid_solveNums.induct)
  case (1 grid)
  show ?case
  proof (rule assms(1))
    fix r c assume f: "findEmpty grid = Some (r, c)"
    then have "cellIs grid r c 0" using findEmpty_Some by blast
    then show "Q grid r c 1" using 1[OF f refl] by simp
  qed
next
  case (2 grid row col num)
  have same: "setCell grid row col 0 = grid"
    using 2(4) by (rule setCell_same)
  show ?case
  proof (rule assms(2)[OF 2(4)])
    assume "num \<le> 9" "isSafe grid row col num"
    then show "P (setCell grid row col num)" using 2(1) by simp
  next
    assume le: "num \<le> 9"
      and miss: "isSafe grid row col num \<Longrightarrow> \<not> fst (solveGrid (setCell grid row col num))"
    show "Q grid row col (num + 1)"
    proof (cases "isSafe grid row col num")
      case False
      then show ?thesis using 2(3)[OF le] 2(4) by simp
    next
      case True
      let ?next = "solveGrid (setCell grid row col num)"
      have undone: "snd ?next = setCell grid row col num"
        using solve_unwound(1)[OF miss[OF True]] .
      have "(fst ?next, snd ?next) = ?next" by simp
      from 2(2)[OF le True refl this miss[OF True]]
      show ?thesis using 2(4) by (simp add: undone same)
    qed
  qed
qed

lemma solveNums_unfold:
  "cellIs g r c 0 \<Longrightarrow>
   solveNums g r c n =
     (if n \<le> 9 then
        (if isSafe g r c n \<and> fst (solveGrid (setCell g r c n)) then solveGrid (setCell g r c n)
         else solveNums g r c (n + 1))
      else (False, g))"
proof -
  assume cell: "cellIs g r c 0"
  consider (stop) "\<not> n \<le> 9" | (skip) "n \<le> 9" "\<not> isSafe g r c n"
    | (place) "n \<le> 9" "isSafe g r c n"
    by blast
  then show ?thesis
  proof cases
    case stop
    then show ?thesis by (simp add: solveNums_stop)
  next
    case skip
    then show ?thesis by (simp add: solveNums_skip)
  next
    case place
    then show ?thesis by (simp add: solveNums_step setCell_same[OF cell])
  qed
qed

lemma solve_success_full: "fst (solveGrid g) \<longrightarrow> findEmpty (snd (solveGrid g)) = None"
proof (rule solver_induct(1)[where
      P = "\<lambda>g. fst (solveGrid g) \<longrightarrow> findEmpty (snd (solveGrid g)) = None" and
      Q = "\<lambda>g r c n. fst (solveNums g r c n) \<longrightarrow> findEmpty (snd (solveNums g r c n)) = None"],
    goal_cases)
  case (1 g)
  show ?case
  proof (cases "findEmpty g")
    case None
    then show ?thesis by (simp add: solveGrid_full)
  next
    case (Some p)
    obtain r c where p: "p = (r, c)" by (cases p)
    have f: "findEmpty g = Some (r, c)" using Some p by simp
    show ?thesis
      using 1[OF f] unfolding solveGrid_cell[OF f] by simp
  qed
next
  case (2 g r c n)
  then show ?case
    unfolding solveNums_unfold[OF 2(1), of n] by auto
qed

lemma solve_shape: "map length (snd (solveGrid g)) = map length g"
proof (rule solver_induct(1)[where
      P = "\<lambda>g. map length (snd (solveGrid g)) = map length g" and
      Q = "\<lambda>g r c n. map length (snd (solveNums g r c n)) = map length g"], goal_cases)
  case (1 g)
  show ?case
  proof (cases "findEmpty g")
    case None
    then show ?thesis by (simp add: solveGrid_full)
  next
    case (Some p)
    obtain r c where p: "p = (r, c)" by (cases p)
    have f: "findEmpty g = Some (r, c)" using Some p by simp
    show ?thesis
      using 1[OF f] unfolding solveGrid_cell[OF f] by simp
  qed
next
  case (2 g r c n)
  then show ?case
    unfolding solveNums_unfold[OF 2(1), of n] by auto
qed

lemma is_grid_solveGrid [simp]: "is_grid (snd (solveGrid g)) = is_grid g"
  by (simp add: is_grid_shape solve_shape)

text \<open>
  C5. \<open>solveGrid\<close> returns a boolean (the first component). On a 9 by 9 grid: if it is
  true, the grid it leaves is 9 by 9 and has no cell equal to 0; if it is false, the grid
  it leaves is the grid it was given, cell for cell.
\<close>

theorem solveGrid_atomic:
  assumes "is_grid grid" and "solveGrid grid = (solved, grid')"
  shows "(solved \<longrightarrow> is_grid grid' \<and> noEmpty grid') \<and> (\<not> solved \<longrightarrow> grid' = grid)"
proof -
  have g': "grid' = snd (solveGrid grid)" and s: "solved = fst (solveGrid grid)"
    using assms(2) by simp_all
  have shape: "is_grid grid'"
    using assms(1) g' by simp
  show ?thesis
    using solve_success_full[of grid] solve_unwound(1)[of grid] shape
    by (auto simp: g' s findEmpty_None_noEmpty[symmetric])
qed

theorem solveGrid_atomic_witness:
  "is_grid holedGrid \<and> solveGrid holedGrid = (True, solvedGrid) \<and>
   is_grid solvedGrid \<and> noEmpty solvedGrid \<and>
   is_grid stuckGrid \<and> \<not> fst (solveGrid stuckGrid) \<and> snd (solveGrid stuckGrid) = stuckGrid"
proof -
  have ok: "solveGrid holedGrid = (True, solvedGrid)" by code_simp
  have no: "\<not> fst (solveGrid stuckGrid)" by code_simp
  have "solveGrid stuckGrid = (fst (solveGrid stuckGrid), snd (solveGrid stuckGrid))" by simp
  from solveGrid_atomic[OF is_grid_holedGrid ok] solveGrid_atomic[OF is_grid_stuckGrid this]
  show ?thesis using ok no is_grid_holedGrid is_grid_stuckGrid by simp
qed

definition complete :: "Grid \<Rightarrow> bool" where
  "complete grid \<longleftrightarrow>
     is_grid grid \<and> noEmpty grid \<and>
     list_all (\<lambda>k. list_all (\<lambda>v. count_list (rowEntries grid k) v = 1) [1..9]) [0..<9] \<and>
     list_all (\<lambda>k. list_all (\<lambda>v. count_list (colEntries grid k) v = 1) [1..9]) [0..<9] \<and>
     list_all (\<lambda>k. list_all (\<lambda>v. count_list (boxEntries grid (3 * (k div 3)) (3 * (k mod 3))) v = 1)
                       [1..9]) [0..<9]"

text \<open>
  C8. A grid that is already complete (9 by 9, every cell non-zero, every row, column
  and box holding each of 1..9 exactly once) is solved at once: \<open>solveGrid\<close> returns
  true and the grid it leaves is the grid it was given.
\<close>

theorem solveGrid_complete_idempotent:
  assumes "complete grid"
  shows "solveGrid grid = (True, grid)"
proof -
  have "is_grid grid" "noEmpty grid"
    using assms by (simp_all add: complete_def)
  then have "findEmpty grid = None"
    by (simp add: findEmpty_None_noEmpty)
  then show ?thesis by (rule solveGrid_full)
qed

theorem solveGrid_complete_idempotent_witness:
  "complete solvedGrid \<and> solveGrid solvedGrid = (True, solvedGrid)"
proof -
  have c: "complete solvedGrid" by code_simp
  from solveGrid_complete_idempotent[OF c] c show ?thesis by simp
qed

subsection \<open>Unfolding the counter\<close>

lemma countSolutions_cut: "k > 1 \<Longrightarrow> countSolutions g k = (k, g)"
  by (simp add: countSolutions.simps)

lemma countSolutions_full: "\<not> k > 1 \<Longrightarrow> findEmpty g = None \<Longrightarrow> countSolutions g k = (k + 1, g)"
  by (simp add: countSolutions.simps)

lemma countSolutions_cell:
  "\<not> k > 1 \<Longrightarrow> findEmpty g = Some (r, c) \<Longrightarrow> countSolutions g k = countNums g k r c 1"
  by (simp add: countSolutions.simps)

lemma countNums_stop: "\<not> n \<le> 9 \<Longrightarrow> countNums g k r c n = (k, g)"
  by (simp add: countNums.simps)

lemma countNums_skip:
  "n \<le> 9 \<Longrightarrow> \<not> isSafe g r c n \<Longrightarrow> countNums g k r c n = countNums g k r c (n + 1)"
  by (simp add: countNums.simps)

lemma countNums_try:
  "n \<le> 9 \<Longrightarrow> isSafe g r c n \<Longrightarrow>
   countNums g k r c n =
     countNums (setCell (snd (countSolutions (setCell g r c n) k)) r c 0)
       (fst (countSolutions (setCell g r c n) k)) r c (n + 1)"
  by (subst countNums.simps) (simp add: case_prod_beta)

lemma count_unwound:
  "snd (countSolutions g k) = g"
  "snd (countNums g k r c n) = g \<or> snd (countNums g k r c n) = setCell g r c 0"
proof (induct g k and g k r c n rule: countSolutions_countNums.induct)
  case (1 grid count)
  show ?case
  proof (cases "count > 1")
    case True
    then show ?thesis by (simp add: countSolutions_cut)
  next
    case small: False
    show ?thesis
    proof (cases "findEmpty grid")
      case None
      then show ?thesis using small by (simp add: countSolutions_full)
    next
      case (Some p)
      obtain r c where p: "p = (r, c)" by (cases p)
      have "setCell grid r c 0 = grid"
        using Some p findEmpty_inScan by simp
      then show ?thesis
        using 1[OF small Some p[symmetric]] small Some p by (auto simp: countSolutions_cell)
    qed
  qed
next
  case (2 grid count row col num)
  let ?next = "countSolutions (setCell grid row col num) count"
  consider (stop) "\<not> num \<le> 9" | (skip) "num \<le> 9" "\<not> isSafe grid row col num"
    | (place) "num \<le> 9" "isSafe grid row col num"
    by blast
  then show ?case
  proof cases
    case stop
    then show ?thesis by (simp add: countNums_stop)
  next
    case skip
    then show ?thesis using 2(3) by (simp add: countNums_skip)
  next
    case place
    have undone: "snd ?next = setCell grid row col num"
      using 2(1) place by simp
    have eq: "countNums grid count row col num =
        countNums (setCell grid row col 0) (fst ?next) row col (num + 1)"
      using place undone by (simp add: countNums_try)
    have "(fst ?next, snd ?next) = ?next" by simp
    from 2(2)[OF place refl this]
    show ?thesis unfolding undone eq by auto
  qed
qed

lemma countNums_unfold:
  "cellIs g r c 0 \<Longrightarrow>
   countNums g k r c n =
     (if n \<le> 9 then
        (if isSafe g r c n then countNums g (fst (countSolutions (setCell g r c n) k)) r c (n + 1)
         else countNums g k r c (n + 1))
      else (k, g))"
proof -
  assume cell: "cellIs g r c 0"
  consider (stop) "\<not> n \<le> 9" | (skip) "n \<le> 9" "\<not> isSafe g r c n"
    | (place) "n \<le> 9" "isSafe g r c n"
    by blast
  then show ?thesis
  proof cases
    case stop
    then show ?thesis by (simp add: countNums_stop)
  next
    case skip
    then show ?thesis by (simp add: countNums_skip)
  next
    case place
    then show ?thesis
      by (simp add: countNums_try count_unwound(1) setCell_same[OF cell])
  qed
qed

lemma counter_induct [case_names grid nums]:
  fixes P :: "Grid \<Rightarrow> nat \<Rightarrow> bool"
  assumes grid: "\<And>g k. (\<And>r c. \<not> k > 1 \<Longrightarrow> findEmpty g = Some (r, c) \<Longrightarrow> Q g k r c 1) \<Longrightarrow> P g k"
    and nums: "\<And>g k r c n. cellIs g r c 0 \<Longrightarrow>
        (n \<le> 9 \<Longrightarrow> isSafe g r c n \<Longrightarrow> P (setCell g r c n) k) \<Longrightarrow>
        (n \<le> 9 \<Longrightarrow>
           Q g (if isSafe g r c n then fst (countSolutions (setCell g r c n) k) else k) r c (n + 1))
        \<Longrightarrow> Q g k r c n"
  shows "P g k" and "cellIs g r c 0 \<Longrightarrow> Q g k r c n"
proof (induct g k and g k r c n rule: countSolutions_countNums.induct)
  case (1 grid count)
  show ?case
  proof (rule assms(1))
    fix r c assume small: "\<not> count > 1" and f: "findEmpty grid = Some (r, c)"
    then have "cellIs grid r c 0" using findEmpty_Some by blast
    then show "Q grid count r c 1" using 1[OF small f refl] by simp
  qed
next
  case (2 grid count row col num)
  have same: "setCell grid row col 0 = grid"
    using 2(4) by (rule setCell_same)
  let ?next = "countSolutions (setCell grid row col num) count"
  show ?case
  proof (rule assms(2)[OF 2(4)])
    assume "num \<le> 9" "isSafe grid row col num"
    then show "P (setCell grid row col num) count" using 2(1) by simp
  next
    assume le: "num \<le> 9"
    show "Q grid (if isSafe grid row col num then fst ?next else count) row col (num + 1)"
    proof (cases "isSafe grid row col num")
      case False
      then show ?thesis using 2(3)[OF le] 2(4) by simp
    next
      case True
      have undone: "snd ?next = setCell grid row col num"
        by (rule count_unwound(1))
      have "(fst ?next, snd ?next) = ?next" by simp
      from 2(2)[OF le True refl this]
      show ?thesis using 2(4) True by (simp add: undone same)
    qed
  qed
qed

section \<open>Properties of the solution counter\<close>

text \<open>
  C9. \<open>countSolutions\<close> leaves its grid as it found it, whatever the counter holds at
  the call: every placement made during the search is undone before the call returns.
\<close>

theorem countSolutions_restores_grid:
  assumes "is_grid grid"
  shows "snd (countSolutions grid count) = grid"
  by (rule count_unwound(1))

theorem countSolutions_restores_grid_witness:
  "is_grid twoWayGrid \<and> snd (countSolutions twoWayGrid 0) = twoWayGrid \<and>
   snd (countSolutions twoWayGrid 1) = twoWayGrid"
  using countSolutions_restores_grid[OF is_grid_twoWayGrid, of 0]
    countSolutions_restores_grid[OF is_grid_twoWayGrid, of 1] is_grid_twoWayGrid
  by simp

lemma count_bound: "k \<le> 2 \<longrightarrow> fst (countSolutions g k) \<le> 2"
proof (rule counter_induct(1)[where
      P = "\<lambda>g k. k \<le> 2 \<longrightarrow> fst (countSolutions g k) \<le> 2" and
      Q = "\<lambda>g k r c n. k \<le> 2 \<longrightarrow> fst (countNums g k r c n) \<le> 2"], goal_cases)
  case (1 g k)
  show ?case
  proof (cases "k > 1")
    case True
    then show ?thesis by (simp add: countSolutions_cut)
  next
    case small: False
    show ?thesis
    proof (cases "findEmpty g")
      case None
      then show ?thesis using small by (simp add: countSolutions_full)
    next
      case (Some p)
      obtain r c where p: "p = (r, c)" by (cases p)
      have f: "findEmpty g = Some (r, c)" using Some p by simp
      show ?thesis
        using 1[OF small f] unfolding countSolutions_cell[OF small f] by simp
    qed
  qed
next
  case (2 g k r c n)
  then show ?case
    unfolding countNums_unfold[OF 2(1), of k n] by auto
qed

text \<open>
  C10. Called with a fresh counter on a 9 by 9 grid, \<open>countSolutions\<close> returns 0, 1 or
  2. A call entered with a counter above 1 returns that counter unchanged, so the counter
  is incremented only in calls entered with 0 or 1.
\<close>

theorem countSolutions_at_most_two:
  assumes "is_grid grid"
  shows "fst (countSolutions grid 0) \<in> {0, 1, 2} \<and>
         (\<forall>k. k > 1 \<longrightarrow> countSolutions grid k = (k, grid))"
proof -
  have "fst (countSolutions grid 0) \<le> 2"
    using count_bound[of 0 grid] by simp
  then have "fst (countSolutions grid 0) \<in> {0, 1, 2}"
    by auto
  then show ?thesis
    by (simp add: countSolutions_cut)
qed

theorem countSolutions_at_most_two_witness:
  "is_grid twoWayGrid \<and> fst (countSolutions twoWayGrid 0) = 2 \<and>
   fst (countSolutions twoWayGrid 0) \<in> {0, 1, 2} \<and>
   countSolutions twoWayGrid 2 = (2, twoWayGrid)"
proof -
  have two: "fst (countSolutions twoWayGrid 0) = 2" by code_simp
  show ?thesis
    using countSolutions_at_most_two[OF is_grid_twoWayGrid] two is_grid_twoWayGrid
    by simp
qed

subsection \<open>Full grids and grids with a blocked cell\<close>

text \<open>
  A grid has a duplicate when a row, a column or a box holds some non-zero value twice.
  A cell is blocked when it is empty and no value from 1 to 9 passes \<open>isSafe\<close> there.
\<close>

definition dupIn :: "int list \<Rightarrow> bool" where
  "dupIn xs \<longleftrightarrow> \<not> distinct (filter (\<lambda>v. v \<noteq> 0) xs)"

definition hasDuplicate :: "Grid \<Rightarrow> bool" where
  "hasDuplicate grid \<longleftrightarrow>
     list_ex (\<lambda>k. dupIn (rowEntries grid k) \<or> dupIn (colEntries grid k) \<or>
                  dupIn (boxEntries grid (3 * (k div 3)) (3 * (k mod 3)))) [0..<9]"

definition blockedAt :: "Grid \<Rightarrow> nat \<Rightarrow> nat \<Rightarrow> bool" where
  "blockedAt grid r c \<longleftrightarrow> cellIs grid r c 0 \<and> list_all (\<lambda>v. \<not> isSafe grid r c v) [1..9]"

definition hasBlockedCell :: "Grid \<Rightarrow> bool" where
  "hasBlockedCell grid \<longleftrightarrow> list_ex (\<lambda>(r, c). blockedAt grid r c) scanOrder"

lemma isSafe_antimono:
  assumes "cellIs g r c 0" "v \<noteq> 0" "isSafe (setCell g r c n) i j v"
  shows "isSafe g i j v"
proof -
  have "cellIs (setCell g r c n) a b v" if h: "cellIs g a b v" for a b
  proof -
    have "\<not> (a = r \<and> b = c)"
      using h assms(1,2) by (auto simp: cellIs_def)
    then show ?thesis using h by (auto simp: cellIs_setCell)
  qed
  then show ?thesis
    using assms(3) unfolding isSafe_def list_all_iff Let_def by blast
qed

lemma blockedAt_setCell:
  assumes "cellIs g r c 0" "blockedAt g i j" "(i, j) \<noteq> (r, c)"
  shows "blockedAt (setCell g r c n) i j"
proof -
  have "cellIs (setCell g r c n) i j 0"
    using assms(2,3) by (auto simp: blockedAt_def cellIs_setCell)
  moreover have "\<not> isSafe (setCell g r c n) i j v" if "v \<in> set [1..9]" for v
  proof
    assume "isSafe (setCell g r c n) i j v"
    then have "isSafe g i j v"
      using isSafe_antimono[OF assms(1)] that by auto
    then show False
      using assms(2) that by (auto simp: blockedAt_def list_all_iff)
  qed
  ultimately show ?thesis
    by (simp add: blockedAt_def list_all_iff)
qed

lemma count_blocked:
  assumes ij: "i < 9" "j < 9"
  shows "blockedAt g i j \<longrightarrow> fst (countSolutions g k) = k"
proof (rule counter_induct(1)[where
      P = "\<lambda>g k. blockedAt g i j \<longrightarrow> fst (countSolutions g k) = k" and
      Q = "\<lambda>g k r c n. blockedAt g i j \<and> 1 \<le> n \<longrightarrow> fst (countNums g k r c n) = k"],
    goal_cases)
  case (1 g k)
  show ?case
  proof (cases "k > 1")
    case True
    then show ?thesis by (simp add: countSolutions_cut)
  next
    case small: False
    show ?thesis
    proof (cases "findEmpty g")
      case None
      then have "\<not> cellIs g i j 0"
        using ij by (simp add: findEmpty_None)
      then show ?thesis by (simp add: blockedAt_def)
    next
      case (Some p)
      obtain r c where p: "p = (r, c)" by (cases p)
      have f: "findEmpty g = Some (r, c)" using Some p by simp
      show ?thesis
        using 1[OF small f] unfolding countSolutions_cell[OF small f] by simp
    qed
  qed
next
  case (2 g k r c n)
  show ?case
  proof
    assume a: "blockedAt g i j \<and> 1 \<le> n"
    show "fst (countNums g k r c n) = k"
    proof (cases "n \<le> 9")
      case False
      then show ?thesis by (simp add: countNums_stop)
    next
      case le: True
      show ?thesis
      proof (cases "isSafe g r c n")
        case False
        then show ?thesis
          using 2(3)[OF le] a le unfolding countNums_unfold[OF 2(1), of k n] by simp
      next
        case True
        have "(i, j) \<noteq> (r, c)"
          using a le True by (auto simp: blockedAt_def list_all_iff)
        then have "blockedAt (setCell g r c n) i j"
          using blockedAt_setCell[OF 2(1)] a by blast
        then have "fst (countSolutions (setCell g r c n) k) = k"
          using 2(2)[OF le True] by simp
        then show ?thesis
          using 2(3)[OF le] a le True unfolding countNums_unfold[OF 2(1), of k n] by simp
      qed
    qed
  qed
qed


text \<open>
  C4, first half: on a 9 by 9 grid with no empty cell a fresh count is 1, whether or not
  the grid is a valid completion. Second half as the code has it: the count is 0 on a
  grid with a blocked cell. The givens are never checked against each other, so a
  duplicate among them does not make the count 0: on the full grid \<open>dupGrid\<close>, whose
  first row holds 2 twice, the count is 1.
\<close>

theorem countSolutions_dup_counterexample:
  "is_grid dupGrid \<and> noEmpty dupGrid \<and> hasDuplicate dupGrid \<and>
   fst (countSolutions dupGrid 0) = 1"
  by code_simp

theorem countSolutions_full_or_blocked:
  assumes "is_grid grid"
  shows "(noEmpty grid \<longrightarrow> fst (countSolutions grid 0) = 1) \<and>
         (hasBlockedCell grid \<longrightarrow> fst (countSolutions grid 0) = 0)"
proof (intro conjI impI)
  assume "noEmpty grid"
  then have "findEmpty grid = None"
    using assms by (simp add: findEmpty_None_noEmpty)
  then show "fst (countSolutions grid 0) = 1"
    by (simp add: countSolutions_full)
next
  assume "hasBlockedCell grid"
  then obtain i j where "(i, j) \<in> set scanOrder" "blockedAt grid i j"
    by (auto simp: hasBlockedCell_def list_ex_iff)
  then show "fst (countSolutions grid 0) = 0"
    using count_blocked[of i j grid 0] by (simp add: set_scanOrder)
qed

theorem countSolutions_full_or_blocked_witness:
  "is_grid solvedGrid \<and> noEmpty solvedGrid \<and> fst (countSolutions solvedGrid 0) = 1 \<and>
   is_grid stuckGrid \<and> hasBlockedCell stuckGrid \<and> fst (countSolutions stuckGrid 0) = 0"
proof -
  have full: "noEmpty solvedGrid" by code_simp
  have blocked: "hasBlockedCell stuckGrid" by code_simp
  show ?thesis
    using countSolutions_full_or_blocked[OF is_grid_solvedGrid]
      countSolutions_full_or_blocked[OF is_grid_stuckGrid]
      full blocked is_grid_solvedGrid is_grid_stuckGrid
    by simp
qed

section \<open>Puzzle generator\<close>

text \<open>
  The generator draws from \<^verbatim>\<open>Math.random()\<close>. The model takes the random source as
  a tape of naturals: a draw \<open>x\<close> stands for a call whose
  \<^verbatim>\<open>Math.floor(Math.random() * n)\<close> is \<open>x mod n\<close>, so every sequence of outcomes
  is some tape. A run that needs more draws than the tape holds has no result
  (\<open>None\<close>); the retry loop of \<^verbatim>\<open>fillBox\<close> is the one loop of the source that an
  unlucky source can keep running.
\<close>

definition isSafeBox :: "Grid \<Rightarrow> nat \<Rightarrow> nat \<Rightarrow> int \<Rightarrow> bool" where
  "isSafeBox grid rowStart colStart num =
     list_all (\<lambda>i. list_all (\<lambda>j. \<not> cellIs grid (rowStart + i) (colStart + j) num)
        [0..<BOX_SIZE]) [0..<BOX_SIZE]"

text \<open>The loop \<^verbatim>\<open>do { num = ... } while (!isSafeBox(grid, row, col, num))\<close>.\<close>

fun drawSafe :: "Grid \<Rightarrow> nat \<Rightarrow> nat \<Rightarrow> nat list \<Rightarrow> (int \<times> nat list) option" where
  "drawSafe grid row col [] = None"
| "drawSafe grid row col (x # rnd) =
     (let num = int (x mod 9) + 1
      in if isSafeBox grid row col num then Some (num, rnd) else drawSafe grid row col rnd)"

definition boxOrder :: "(nat \<times> nat) list" where
  "boxOrder = concat (map (\<lambda>i. map (\<lambda>j. (i, j)) [0..<BOX_SIZE]) [0..<BOX_SIZE])"

fun fillCells :: "Grid \<Rightarrow> nat \<Rightarrow> nat \<Rightarrow> (nat \<times> nat) list \<Rightarrow> nat list \<Rightarrow> (Grid \<times> nat list) option" where
  "fillCells grid row col [] rnd = Some (grid, rnd)"
| "fillCells grid row col ((i, j) # cells) rnd =
     (case drawSafe grid row col rnd of
        None \<Rightarrow> None
      | Some (num, rnd') \<Rightarrow> fillCells (setCell grid (row + i) (col + j) num) row col cells rnd')"

definition fillBox :: "Grid \<Rightarrow> nat \<Rightarrow> nat \<Rightarrow> nat list \<Rightarrow> (Grid \<times> nat list) option" where
  "fillBox grid row col rnd = fillCells grid row col boxOrder rnd"

text \<open>
  \<^verbatim>\<open>generateFullBoard\<close> fills the boxes at (0,0), (3,3) and (6,6), calls
  \<^verbatim>\<open>solveGrid\<close>, drops the boolean and returns the grid as the call left it.
\<close>

definition generateFullBoard :: "nat list \<Rightarrow> (Grid \<times> nat list) option" where
  "generateFullBoard rnd =
     (case fillBox getEmptyGrid 0 0 rnd of
        None \<Rightarrow> None
      | Some (grid1, rnd1) \<Rightarrow>
          (case fillBox grid1 3 3 rnd1 of
             None \<Rightarrow> None
           | Some (grid2, rnd2) \<Rightarrow>
               (case fillBox grid2 6 6 rnd2 of
                  None \<Rightarrow> None
                | Some (grid3, rnd3) \<Rightarrow> Some (snd (solveGrid grid3), rnd3))))"

text \<open>
  The shuffle \<^verbatim>\<open>for (let i = positions.length - 1; i > 0; i--)\<close> with
  \<^verbatim>\<open>j = Math.floor(Math.random() * (i + 1))\<close> and the swap of entries \<open>i\<close> and \<open>j\<close>.
\<close>

fun shuffle :: "nat \<Rightarrow> (nat \<times> nat) list \<Rightarrow> nat list \<Rightarrow> ((nat \<times> nat) list \<times> nat list) option" where
  "shuffle 0 positions rnd = Some (positions, rnd)"
| "shuffle (Suc i) positions [] = None"
| "shuffle (Suc i) positions (x # rnd) =
     (let j = x mod (Suc i + 1)
      in shuffle i (positions[Suc i := positions ! j, j := positions ! Suc i]) rnd)"

text \<open>
  The removal loop over the shuffled positions. Its state is the puzzle, the attempts
  left and the cells still to remove; the model returns all three as the loop leaves
  them. \<^verbatim>\<open>countSolutions\<close> runs on a copy of the puzzle with a fresh counter.
\<close>

fun removeCells :: "(nat \<times> nat) list \<Rightarrow> Grid \<Rightarrow> int \<Rightarrow> int \<Rightarrow> Grid \<times> int \<times> int" where
  "removeCells [] puzzle attempts cellsToRemove = (puzzle, attempts, cellsToRemove)"
| "removeCells ((r, c) # rest) puzzle attempts cellsToRemove =
     (if cellsToRemove \<le> 0 then (puzzle, attempts, cellsToRemove)
      else
        let backup = puzzle ! r ! c in
        if backup = 0 then removeCells rest puzzle attempts cellsToRemove
        else
          let puzzle1 = setCell puzzle r c 0;
              solutions = fst (countSolutions puzzle1 0)
          in if solutions \<noteq> 1 then
               (let puzzle2 = setCell puzzle1 r c backup;
                    attempts1 = attempts - 1
                in if attempts1 \<le> 0 \<and> cellsToRemove > 0 then (puzzle2, attempts1, cellsToRemove)
                   else removeCells rest puzzle2 attempts1 cellsToRemove)
             else removeCells rest puzzle1 attempts (cellsToRemove - 1))"

definition generateSudokuPuzzle :: "int \<Rightarrow> nat list \<Rightarrow> (Grid \<times> Grid) option" where
  "generateSudokuPuzzle cluesCount rnd =
     (case generateFullBoard rnd of
        None \<Rightarrow> None
      | Some (solution, rnd1) \<Rightarrow>
          (let puzzle = solution;
               attempts = (if cluesCount > 25 then 5 else 20);
               cellsToRemove = 81 - cluesCount
           in case shuffle (length scanOrder - 1) scanOrder rnd1 of
                None \<Rightarrow> None
              | Some (positions, rnd2) \<Rightarrow>
                  Some (fst (removeCells positions puzzle attempts cellsToRemove), solution)))"

subsection \<open>Shape of the generated grids\<close>

lemma nth_setCell:
  "setCell g r c v ! i ! j =
     (if i = r \<and> j = c \<and> r < length g \<and> c < length (g ! r) then v else g ! i ! j)"
  by (cases "r < length g"; cases "i = r"; cases "j = c"; cases "c < length (g ! r)")
    (simp_all add: setCell_def list_update_beyond)

lemma setCell_self [simp]: "setCell g r c (g ! r ! c) = g"
  by (simp add: setCell_def)

lemma is_grid_getEmptyGrid: "is_grid getEmptyGrid"
  by (simp add: is_grid_def getEmptyGrid_def list_all_iff)

lemma fillCells_shape:
  "fillCells g row col cells rnd = Some (g', rnd') \<Longrightarrow> map length g' = map length g"
proof (induction g row col cells rnd rule: fillCells.induct)
  case (1 grid row col rnd)
  then show ?case by simp
next
  case (2 grid row col i j cells rnd)
  then show ?case by (auto split: option.splits)
qed

lemma fillBox_is_grid: "fillBox g row col rnd = Some (g', rnd') \<Longrightarrow> is_grid g' = is_grid g"
  unfolding fillBox_def is_grid_shape by (drule fillCells_shape) simp

lemma generateFullBoard_is_grid:
  assumes "generateFullBoard rnd = Some (solution, rnd')"
  shows "is_grid solution"
  using assms is_grid_getEmptyGrid
  by (auto simp: generateFullBoard_def split: option.splits dest!: fillBox_is_grid)

lemma removeCells_shape:
  "map length (fst (removeCells ps p a k)) = map length p"
  by (induction ps p a k rule: removeCells.induct) (simp_all add: Let_def)

subsection \<open>Puzzle cells come from the solution\<close>

definition cellsFrom :: "Grid \<Rightarrow> Grid \<Rightarrow> bool" where
  "cellsFrom solution puzzle \<longleftrightarrow>
     list_all (\<lambda>(r, c). puzzle ! r ! c = 0 \<or> puzzle ! r ! c = solution ! r ! c) scanOrder"

lemma cellsFrom_iff:
  "cellsFrom s p \<longleftrightarrow> (\<forall>r<9. \<forall>c<9. p ! r ! c = 0 \<or> p ! r ! c = s ! r ! c)"
  unfolding cellsFrom_def list_all_iff
  by (rule iffI) (use set_scanOrder in \<open>blast+\<close>)

lemma cellsFrom_refl: "cellsFrom s s"
  by (simp add: cellsFrom_iff)

lemma cellsFrom_remove: "cellsFrom s p \<Longrightarrow> cellsFrom s (setCell p r c 0)"
  by (simp add: cellsFrom_iff nth_setCell)

lemma removeCells_cellsFrom:
  "cellsFrom s p \<Longrightarrow> cellsFrom s (fst (removeCells ps p a k))"
  by (induction ps p a k rule: removeCells.induct)
    (simp_all add: Let_def cellsFrom_remove)

text \<open>
  C3. Whenever the generator returns, puzzle and solution are 9 by 9 and every cell of
  the puzzle is 0 or the value of the solution at the same place; so a non-zero cell of
  the puzzle equals the cell of the solution.
\<close>

theorem generated_puzzle_cells_from_solution:
  assumes "generateSudokuPuzzle cluesCount rnd = Some (puzzle, solution)"
  shows "is_grid puzzle \<and> is_grid solution \<and>
         (\<forall>r<9. \<forall>c<9. puzzle ! r ! c = 0 \<or> puzzle ! r ! c = solution ! r ! c)"
proof -
  obtain rnd1 positions rnd2 attempts k where
    full: "generateFullBoard rnd = Some (solution, rnd1)" and
    puzzle: "puzzle = fst (removeCells positions solution attempts k)"
    using assms
    by (auto simp: generateSudokuPuzzle_def Let_def split: option.splits)
  have s: "is_grid solution"
    using full by (rule generateFullBoard_is_grid)
  then have "is_grid puzzle"
    unfolding puzzle is_grid_shape by (simp add: removeCells_shape)
  moreover have "cellsFrom solution puzzle"
    unfolding puzzle by (rule removeCells_cellsFrom) (rule cellsFrom_refl)
  ultimately show ?thesis
    using s by (simp add: cellsFrom_iff)
qed

definition tapeW :: "nat list" where
  "tapeW =
     [0, 0, 5, 4, 7, 6, 8, 1, 2, 3, 0, 8, 7, 5, 6, 4, 2, 3, 1, 3, 2, 7, 5, 1, 6, 8, 4, 0]
       @ replicate 80 0"

definition solutionW :: Grid where
  "solutionW =
    [[1, 6, 5, 2, 3, 4, 7, 8, 9], [8, 7, 9, 5, 1, 6, 2, 4, 3], [2, 3, 4, 7, 8, 9, 1, 6, 5],
     [3, 2, 6, 1, 9, 8, 5, 7, 4], [4, 1, 8, 6, 7, 5, 3, 9, 2], [5, 9, 7, 3, 4, 2, 8, 1, 6],
     [6, 5, 1, 9, 2, 7, 4, 3, 8], [9, 4, 3, 8, 5, 1, 6, 2, 7], [7, 8, 2, 4, 6, 3, 9, 5, 1]]"

definition puzzleW :: Grid where
  "puzzleW =
    [[1, 0, 0, 2, 3, 4, 7, 8, 9], [8, 7, 9, 5, 1, 6, 2, 4, 3], [2, 3, 4, 7, 8, 9, 1, 6, 5],
     [3, 2, 6, 1, 9, 8, 5, 7, 4], [4, 1, 8, 6, 7, 5, 3, 9, 2], [5, 9, 7, 3, 4, 2, 8, 1, 6],
     [6, 5, 1, 9, 2, 7, 4, 3, 8], [9, 4, 3, 8, 5, 1, 6, 2, 7], [7, 8, 2, 4, 6, 3, 9, 5, 1]]"

lemma boardW: "generateFullBoard tapeW = Some (solutionW, replicate 80 0)"
  by code_simp

lemma shuffleW:
  "shuffle (length scanOrder - 1) scanOrder (replicate 80 0) = Some (tl scanOrder @ [(0, 0)], [])"
  by code_simp

lemma runW: "removeCells (tl scanOrder @ [(0, 0)]) solutionW 5 2 = (puzzleW, 5, 0)"
  by code_simp

lemma generate_tapeW: "generateSudokuPuzzle 79 tapeW = Some (puzzleW, solutionW)"
  using shuffleW by (simp add: generateSudokuPuzzle_def boardW runW)

theorem generated_puzzle_cells_from_solution_witness:
  "generateSudokuPuzzle 79 tapeW = Some (puzzleW, solutionW) \<and>
   is_grid puzzleW \<and> is_grid solutionW \<and> puzzleW ! 0 ! 1 = 0 \<and>
   puzzleW ! 4 ! 4 = solutionW ! 4 ! 4"
proof -
  have z: "puzzleW ! 0 ! 1 = 0" and n: "puzzleW ! 4 ! 4 \<noteq> 0"
    by (simp_all add: puzzleW_def)
  from generated_puzzle_cells_from_solution[OF generate_tapeW]
  have "puzzleW ! 4 ! 4 = 0 \<or> puzzleW ! 4 ! 4 = solutionW ! 4 ! 4"
    and "is_grid puzzleW" and "is_grid solutionW"
    by simp_all
  then show ?thesis
    using generate_tapeW z n by simp
qed


section \<open>Completions of a grid\<close>

text \<open>
  What the counter returns is settled by the completions of its grid: the complete grids
  that agree with it on its non-zero cells. The grids the generator hands to the counter
  come from a complete grid by removals, so their non-zero cells are in 1..9 and no two
  of them clash; on such a grid the counter returns the number of completions, capped
  at 2.
\<close>

subsection \<open>Units and peers\<close>


definition rowCells :: "nat \<Rightarrow> (nat \<times> nat) list" where
  "rowCells k = map (\<lambda>j. (k, j)) [0..<9]"

definition colCells :: "nat \<Rightarrow> (nat \<times> nat) list" where
  "colCells k = map (\<lambda>i. (i, k)) [0..<9]"

definition boxCells :: "nat \<Rightarrow> (nat \<times> nat) list" where
  "boxCells k =
     concat (map (\<lambda>i. map (\<lambda>j. (i, j)) [3 * (k mod 3)..<3 * (k mod 3) + 3])
                 [3 * (k div 3)..<3 * (k div 3) + 3])"

definition entries :: "Grid \<Rightarrow> (nat \<times> nat) list \<Rightarrow> int list" where
  "entries g cells = map (\<lambda>(r, c). g ! r ! c) cells"








lemma length_unitCells [simp]:
  "length (rowCells k) = 9" "length (colCells k) = 9" "length (boxCells k) = 9"
  by (simp_all add: rowCells_def colCells_def boxCells_def length_concat comp_def sum_list_triv)




subsection \<open>Complete grids, unit by unit\<close>




lemma length_entries [simp]: "length (entries g u) = length u"
  by (simp add: entries_def)
















subsection \<open>Completions of a grid\<close>












subsection \<open>The counter counts the completions, up to two\<close>










subsection \<open>Grids below a complete grid\<close>







subsection \<open>Forced placements\<close>









section \<open>Clue count of generated puzzles\<close>










subsection \<open>A puzzle of 17 clues for the target 15\<close>
















































subsection \<open>Runs of the removal loop\<close>



















end
